theory Spec2Isabelle
  imports Main "HOL-Library.Multiset" "HOL-Library.Sublist"
begin

section \<open>Letter encoder\<close>

text \<open>
  The program is Python 3: integers are unbounded (\<open>int\<close>), a subscript on a dict
  with a missing key raises, and \<open>/\<close> between integers is float division.  Every
  raise is a value of \<open>error\<close>; a function that can raise returns \<open>error + 'a\<close>.
\<close>

datatype error = KeyError | IndexError | ZeroDivisionError | OverflowError | LoadError

text \<open>The table \<open>primes\<close>: letters \<open>a\<close> .. \<open>z\<close> to the first 26 primes.\<close>

definition primes_table :: "(char \<times> int) list" where
  "primes_table =
    [(CHR ''a'', 2), (CHR ''b'', 3), (CHR ''c'', 5), (CHR ''d'', 7), (CHR ''e'', 11),
     (CHR ''f'', 13), (CHR ''g'', 17), (CHR ''h'', 19), (CHR ''i'', 23), (CHR ''j'', 29),
     (CHR ''k'', 31), (CHR ''l'', 37), (CHR ''m'', 41), (CHR ''n'', 43), (CHR ''o'', 47),
     (CHR ''p'', 53), (CHR ''q'', 59), (CHR ''r'', 61), (CHR ''s'', 67), (CHR ''t'', 71),
     (CHR ''u'', 73), (CHR ''v'', 79), (CHR ''w'', 83), (CHR ''x'', 89), (CHR ''y'', 97),
     (CHR ''z'', 101)]"

definition primes :: "char \<rightharpoonup> int" where
  "primes = map_of primes_table"

text \<open>\<open>prod(iterable)\<close> is \<open>reduce(mul, iterable, 1)\<close>: a left fold from 1.\<close>

definition prod_py :: "int list \<Rightarrow> int" where
  "prod_py iterable = foldl (*) 1 iterable"

text \<open>
  The comprehension \<open>[primes[x] for x in word]\<close>: the primes of the letters in order,
  or the KeyError of the first character that is not in the table.
\<close>

fun letter_primes :: "string \<Rightarrow> error + int list" where
  "letter_primes [] = Inr []"
| "letter_primes (x # word) =
     (case primes x of
        None \<Rightarrow> Inl KeyError
      | Some p \<Rightarrow> (case letter_primes word of Inl e \<Rightarrow> Inl e | Inr ps \<Rightarrow> Inr (p # ps)))"

definition word_signature :: "string \<Rightarrow> error + int" where
  "word_signature word =
     (case letter_primes word of Inl e \<Rightarrow> Inl e | Inr ps \<Rightarrow> Inr (prod_py ps))"

text \<open>A table letter is a key of \<open>primes\<close>.\<close>

definition table_word :: "string \<Rightarrow> bool" where
  "table_word word = list_all (\<lambda>x. primes x \<noteq> None) word"


text \<open>The prime of a table letter, 1 for any other character (used in proofs only).\<close>

definition prime_of :: "char \<Rightarrow> int" where
  "prime_of x = (case primes x of None \<Rightarrow> 1 | Some p \<Rightarrow> p)"

section \<open>Float division of integers\<close>

text \<open>
  \<open>value/number\<close> on two Python integers is true division: the result is the IEEE
  double nearest to the exact quotient (ties to the even significand), and an
  OverflowError when that would be \<open>2 ^ 1024\<close> or more.  The doubles that matter here
  are integers, so they are modelled by the integer they denote.
\<close>

fun bit_length :: "nat \<Rightarrow> nat" where
  "bit_length n = (if n = 0 then 0 else Suc (bit_length (n div 2)))"

declare bit_length.simps [simp del]

text \<open>The double nearest to a natural number: 53 significant bits, half to even.\<close>

definition nearest_double :: "nat \<Rightarrow> nat" where
  "nearest_double n =
     (if bit_length n \<le> 53 then n
      else let u = 2 ^ (bit_length n - 53); k = n div u; r = n mod u
           in if 2 * r < u \<or> (2 * r = u \<and> even k) then k * u else (k + 1) * u)"

text \<open>
  \<open>int(value/number)\<close> where \<open>number\<close> divides \<open>value\<close> (both uses in the source stand
  under the guard \<open>value % number == 0\<close>): the exact quotient is the integer
  \<open>value div number\<close>, the division rounds it to a double and \<open>int\<close> reads that back.
\<close>

definition int_truediv :: "int \<Rightarrow> int \<Rightarrow> error + int" where
  "int_truediv value number =
     (let q = value div number; m = nearest_double (nat \<bar>q\<bar>)
      in if 2 ^ 1024 \<le> m then Inl OverflowError else Inr (sgn q * int m))"

text \<open>
  \<open>value/number == 1\<close> for \<open>number \<noteq> 0\<close>: the quotient rounds to \<open>1.0\<close> exactly when it
  lies between the midpoints to the neighbouring doubles, \<open>1 - 2^-54\<close> and
  \<open>1 + 2^-53\<close> (both ties go to \<open>1.0\<close>, whose significand is even); the division
  raises when the quotient rounds to \<open>2 ^ 1024\<close> or beyond.
\<close>

definition truediv_is_one :: "int \<Rightarrow> int \<Rightarrow> error + bool" where
  "truediv_is_one value number =
     (let a = \<bar>value\<bar>; b = \<bar>number\<bar>
      in if (2 ^ 1024 - 2 ^ 970) * b \<le> a then Inl OverflowError
         else Inr (sgn value = sgn number
                   \<and> (2 ^ 54 - 1) * b \<le> 2 ^ 54 * a \<and> 2 ^ 53 * a \<le> (2 ^ 53 + 1) * b))"

section \<open>Recursive factorizer\<close>

text \<open>The global \<open>dictionary\<close>: word signature to the words that have it.\<close>

type_synonym dict = "int \<rightharpoonup> string list"

text \<open>
  A \<open>Node\<close> holds either \<open>dictionary[number]\<close> (a list of words) or, at a leaf,
  \<open>[dictionary[value]]\<close> (a list holding that list).
\<close>

datatype label = Words "string list" | Leaf_words "string list list"

datatype node = Node (node_value: label) (node_children: "node list")

text \<open>
  \<open>factor_to_tree\<close>.  The first argument bounds the depth of the recursion; \<open>None\<close>
  is a call that needs more depth than that, so a recursion that never ends is
  \<open>None\<close> at every bound.  \<open>factor_to_tree_for\<close> is the \<open>for\<close> loop: the numbers that
  are still to be tried and the \<open>factorizations\<close> collected so far.
\<close>

fun factor_to_tree :: "nat \<Rightarrow> dict \<Rightarrow> int \<Rightarrow> int list \<Rightarrow> (error + node list) option"
  and factor_to_tree_for ::
    "nat \<Rightarrow> dict \<Rightarrow> int \<Rightarrow> int list \<Rightarrow> int list \<Rightarrow> node list \<Rightarrow> (error + node list) option"
where
  "factor_to_tree 0 d value numbers = None"
| "factor_to_tree (Suc depth) d value numbers =
     factor_to_tree_for depth d value numbers numbers []"
| "factor_to_tree_for depth d value numbers [] factorizations = Some (Inr factorizations)"
| "factor_to_tree_for depth d value numbers (number # rest) factorizations =
     (if value \<noteq> number \<and> number = 0 then Some (Inl ZeroDivisionError)
      else if value \<noteq> number \<and> value mod number = 0 then
        (case int_truediv value number of
           Inl e \<Rightarrow> Some (Inl e)
         | Inr q \<Rightarrow>
            (case factor_to_tree depth d q numbers of
               None \<Rightarrow> None
             | Some (Inl e) \<Rightarrow> Some (Inl e)
             | Some (Inr factored) \<Rightarrow>
                if length factored > 0 then
                  (case d number of
                     None \<Rightarrow> Some (Inl KeyError)
                   | Some ws \<Rightarrow>
                      factor_to_tree_for depth d value numbers rest
                        (factorizations @ [Node (Words ws) factored]))
                else factor_to_tree_for depth d value numbers rest factorizations))
      else if value = number then
        (case d value of
           None \<Rightarrow> Some (Inl KeyError)
         | Some ws \<Rightarrow> Some (Inr [Node (Leaf_words [ws]) []]))
      else factor_to_tree_for depth d value numbers rest factorizations)"

text \<open>
  \<open>str\<close> of a list of words, as Python prints it: \<open>['silent', 'enlist']\<close> (the words
  of a dictionary are table letters, so no character is escaped).
\<close>

fun join :: "string \<Rightarrow> string list \<Rightarrow> string" where
  "join sep [] = []"
| "join sep [w] = w"
| "join sep (w # ws) = w @ sep @ join sep ws"

definition str_words :: "string list \<Rightarrow> string" where
  "str_words ws = ''['' @ join '', '' (map (\<lambda>w. [CHR 39] @ w @ [CHR 39]) ws) @ '']''"

text \<open>
  What \<open>factor\<close> returns: \<open>dictionary[value]\<close> (a list of words), or \<open>factorizations\<close>,
  a list of one-key dicts \<open>{str(dictionary[number]) : factored}\<close>.
\<close>

datatype json = JWords "string list" | JDicts "(string \<times> json) list"

fun json_len :: "json \<Rightarrow> nat" where
  "json_len (JWords ws) = length ws"
| "json_len (JDicts fs) = length fs"

fun factor :: "nat \<Rightarrow> dict \<Rightarrow> int \<Rightarrow> int list \<Rightarrow> (error + json) option"
  and factor_for ::
    "nat \<Rightarrow> dict \<Rightarrow> int \<Rightarrow> int list \<Rightarrow> int list \<Rightarrow> (string \<times> json) list \<Rightarrow> (error + json) option"
where
  "factor 0 d value numbers = None"
| "factor (Suc depth) d value numbers = factor_for depth d value numbers numbers []"
| "factor_for depth d value numbers [] factorizations = Some (Inr (JDicts factorizations))"
| "factor_for depth d value numbers (number # rest) factorizations =
     (if number = 0 then Some (Inl ZeroDivisionError)
      else
        (case (if value mod number = 0
               then (case int_truediv value number of Inl e \<Rightarrow> Inl e | Inr q \<Rightarrow> Inr (q \<noteq> 1))
               else Inr False) of
           Inl e \<Rightarrow> Some (Inl e)
         | Inr True \<Rightarrow>
            (case int_truediv value number of
               Inl e \<Rightarrow> Some (Inl e)
             | Inr q \<Rightarrow>
                (case factor depth d q numbers of
                   None \<Rightarrow> None
                 | Some (Inl e) \<Rightarrow> Some (Inl e)
                 | Some (Inr factored) \<Rightarrow>
                    if json_len factored \<noteq> 0 then
                      (case d number of
                         None \<Rightarrow> Some (Inl KeyError)
                       | Some ws \<Rightarrow>
                          factor_for depth d value numbers rest
                            (factorizations @ [(str_words ws, factored)]))
                    else factor_for depth d value numbers rest factorizations))
         | Inr False \<Rightarrow>
            (case truediv_is_one value number of
               Inl e \<Rightarrow> Some (Inl e)
             | Inr True \<Rightarrow>
                (case d value of
                   None \<Rightarrow> Some (Inl KeyError)
                 | Some ws \<Rightarrow> Some (Inr (JWords ws)))
             | Inr False \<Rightarrow> factor_for depth d value numbers rest factorizations)))"

section \<open>Phrase preparation\<close>

text \<open>
  \<open>itertools.combinations(iterable, r)\<close>: the subsequences of length \<open>r\<close>, in the
  order of the positions they take.
\<close>

fun combinations :: "'a list \<Rightarrow> nat \<Rightarrow> 'a list list" where
  "combinations xs 0 = [[]]"
| "combinations [] (Suc r) = []"
| "combinations (x # xs) (Suc r) = map ((#) x) (combinations xs r) @ combinations xs (Suc r)"

text \<open>A list of results, up to the first raise.\<close>

fun collect :: "(error + 'a) list \<Rightarrow> error + 'a list" where
  "collect [] = Inr []"
| "collect (r # rs) =
     (case r of
        Inl e \<Rightarrow> Inl e
      | Inr x \<Rightarrow> (case collect rs of Inl e \<Rightarrow> Inl e | Inr xs \<Rightarrow> Inr (x # xs)))"

text \<open>
  \<open>sub_word_signatures\<close>: the signatures of the letter combinations of every length
  from 1 to \<open>len(word)\<close>, made a set, filtered by membership in the dictionary and
  sorted in descending order.
\<close>

definition sub_word_signatures :: "dict \<Rightarrow> string \<Rightarrow> error + int list" where
  "sub_word_signatures d word =
     (case collect (map word_signature
                      (concat (map (combinations word) [1 ..< length word + 1]))) of
        Inl e \<Rightarrow> Inl e
      | Inr word_perms \<Rightarrow>
          Inr (rev (sort (filter (\<lambda>signature. d signature \<noteq> None) (remdups word_perms)))))"

text \<open>The globals that \<open>prepare_data\<close> sets and the searches read.\<close>

record state =
  base :: string
  dictionary :: dict
  base_signature :: int
  perms :: "int list"

text \<open>\<open>str.lower\<close> on an ASCII character.\<close>

definition lower_char :: "char \<Rightarrow> char" where
  "lower_char c =
     (if 65 \<le> (of_char c :: nat) \<and> (of_char c :: nat) \<le> 90
      then char_of ((of_char c :: nat) + 32) else c)"

text \<open>
  \<open>prepare_data(word)\<close>.  \<open>word\<close> is \<open>args.words\<close>, a list of lists of strings.  The
  outcome of opening and unpickling the dictionary file is the argument \<open>loaded\<close>.
\<close>

definition prepare_data :: "error + dict \<Rightarrow> string list list \<Rightarrow> error + state" where
  "prepare_data loaded word =
     (case word of
        [] \<Rightarrow> Inl IndexError
      | word0 # _ \<Rightarrow>
         (case loaded of
            Inl e \<Rightarrow> Inl e
          | Inr d \<Rightarrow>
             (case word_signature (map lower_char (concat word0)) of
                Inl e \<Rightarrow> Inl e
              | Inr sig \<Rightarrow>
                 (case sub_word_signatures d (map lower_char (concat word0)) of
                    Inl e \<Rightarrow> Inl e
                  | Inr ps \<Rightarrow>
                      Inr \<lparr>base = map lower_char (concat word0), dictionary = d,
                           base_signature = sig, perms = ps\<rparr>))))"

section \<open>Iterative search\<close>

text \<open>
  \<open>sum(len(dictionary[x][0]) for x in combs)\<close>: a missing signature is a KeyError, an
  empty word list an IndexError.
\<close>

fun letter_count :: "dict \<Rightarrow> int list \<Rightarrow> error + nat" where
  "letter_count d [] = Inr 0"
| "letter_count d (x # combs) =
     (case d x of
        None \<Rightarrow> Inl KeyError
      | Some [] \<Rightarrow> Inl IndexError
      | Some (w # _) \<Rightarrow>
         (case letter_count d combs of Inl e \<Rightarrow> Inl e | Inr n \<Rightarrow> Inr (length w + n)))"

definition pre_filter :: "state \<Rightarrow> int list \<Rightarrow> error + bool" where
  "pre_filter st combs =
     (case letter_count (dictionary st) combs of
        Inl e \<Rightarrow> Inl e
      | Inr n \<Rightarrow> Inr (n = length (base st)))"

text \<open>\<open>filter(pre_filter, ...)\<close> over a list, up to the first raise.\<close>

fun filter_pre :: "state \<Rightarrow> int list list \<Rightarrow> error + int list list" where
  "filter_pre st [] = Inr []"
| "filter_pre st (c # cs) =
     (case pre_filter st c of
        Inl e \<Rightarrow> Inl e
      | Inr keep \<Rightarrow>
         (case filter_pre st cs of
            Inl e \<Rightarrow> Inl e
          | Inr kept \<Rightarrow> Inr (if keep then c # kept else kept)))"

definition combs_by_size :: "state \<Rightarrow> nat \<Rightarrow> error + int list list" where
  "combs_by_size st k = filter_pre st (remdups (combinations (perms st) k))"

text \<open>\<open>prod_and_filter\<close>: the combination, or \<open>None\<close> for \<open>False\<close>.\<close>

definition prod_and_filter :: "state \<Rightarrow> int list \<Rightarrow> int list option" where
  "prod_and_filter st combination =
     (if prod_py combination = base_signature st then Some combination else None)"

text \<open>
  \<open>round(n / 4)\<close> for a length \<open>n\<close>: the quotient is an exact double, and Python
  rounds a half to the even neighbour.
\<close>

definition round_quarter :: "nat \<Rightarrow> nat" where
  "round_quarter n =
     (if n mod 4 < 2 then n div 4
      else if n mod 4 = 2 then (if even (n div 4) then n div 4 else n div 4 + 1)
      else n div 4 + 1)"

definition max_words :: "state \<Rightarrow> nat" where
  "max_words st = min (round_quarter (length (base st)) + 1) 5"

text \<open>\<open>range(1, max_words)\<close>, the sizes handed to \<open>combs_by_size\<close>.\<close>

definition sizes :: "state \<Rightarrow> nat list" where
  "sizes st = [1 ..< max_words st]"

text \<open>The line printed for an anagram: \<open>" ".join(str(dictionary[x]) ...)\<close>.\<close>

definition print_line :: "state \<Rightarrow> int list \<Rightarrow> error + string" where
  "print_line st possibility =
     (case collect (map (\<lambda>x. case dictionary st x of
                                None \<Rightarrow> Inl KeyError
                              | Some ws \<Rightarrow> Inr (str_words ws)) possibility) of
        Inl e \<Rightarrow> Inl e
      | Inr strs \<Rightarrow> Inr (join '' '' strs))"

text \<open>
  The search of \<open>iterative\<close> after \<open>prepare_data\<close>: the combinations that are printed,
  each with its line.  The worker pool hands the sizes and the combinations out in
  no fixed order; the list here is in the order of a sequential run, and any
  reordering of it is a possible output.  An empty tuple and \<open>False\<close> are both falsy
  and print nothing.
\<close>

definition search :: "state \<Rightarrow> error + (int list \<times> string) list" where
  "search st =
     (case collect (map (combs_by_size st) (sizes st)) of
        Inl e \<Rightarrow> Inl e
      | Inr batches \<Rightarrow>
          collect (map (\<lambda>c. case print_line st c of Inl e \<Rightarrow> Inl e | Inr l \<Rightarrow> Inr (c, l))
                     (filter (\<lambda>c. c \<noteq> [])
                        (List.map_filter (prod_and_filter st) (concat batches)))))"

definition iterative :: "error + dict \<Rightarrow> string list list \<Rightarrow> error + (int list \<times> string) list" where
  "iterative loaded words =
     (case prepare_data loaded words of Inl e \<Rightarrow> Inl e | Inr st \<Rightarrow> search st)"

text \<open>
  \<open>recursive\<close> without \<open>--json\<close>: the tree under a root that holds the phrase; with
  \<open>--json\<close>: what \<open>factor\<close> returns.
\<close>

definition recursive_tree ::
  "nat \<Rightarrow> error + dict \<Rightarrow> string list list \<Rightarrow> (error + string \<times> node list) option" where
  "recursive_tree depth loaded words =
     (case prepare_data loaded words of
        Inl e \<Rightarrow> Some (Inl e)
      | Inr st \<Rightarrow>
         (case factor_to_tree depth (dictionary st) (base_signature st) (perms st) of
            None \<Rightarrow> None
          | Some (Inl e) \<Rightarrow> Some (Inl e)
          | Some (Inr forest) \<Rightarrow> Some (Inr (base st, forest))))"

definition recursive_json ::
  "nat \<Rightarrow> error + dict \<Rightarrow> string list list \<Rightarrow> (error + json) option" where
  "recursive_json depth loaded words =
     (case prepare_data loaded words of
        Inl e \<Rightarrow> Some (Inl e)
      | Inr st \<Rightarrow> factor depth (dictionary st) (base_signature st) (perms st))"

section \<open>Reading a forest\<close>

text \<open>
  The root-to-leaf paths of a node, as the lists of labels met on the way down, and
  the factor a label stands for: the signature of its first word.
\<close>

fun paths :: "node \<Rightarrow> label list list" where
  "paths (Node l cs) = (if cs = [] then [[l]] else map ((#) l) (concat (map paths cs)))"

fun label_words :: "label \<Rightarrow> string list" where
  "label_words (Words ws) = ws"
| "label_words (Leaf_words wss) = concat wss"

definition label_factor :: "label \<Rightarrow> error + int" where
  "label_factor l = (case label_words l of [] \<Rightarrow> Inl IndexError | w # _ \<Rightarrow> word_signature w)"

definition path_product :: "label list \<Rightarrow> error + int" where
  "path_product p =
     (case collect (map label_factor p) of Inl e \<Rightarrow> Inl e | Inr fs \<Rightarrow> Inr (prod_py fs))"
section \<open>Properties of the letter encoder\<close>

lemma foldl_mult_prod_list: "foldl (*) a xs = a * prod_list (xs :: int list)"
  by (induction xs arbitrary: a) (simp_all add: mult.assoc)

lemma prod_py_prod_list: "prod_py xs = prod_list xs"
  by (simp add: prod_py_def foldl_mult_prod_list)

lemma letter_primes_table:
  "table_word word \<Longrightarrow> letter_primes word = Inr (map prime_of word)"
  by (induction word) (auto simp: table_word_def prime_of_def)

lemma letter_primes_not_table:
  "\<not> table_word word \<Longrightarrow> letter_primes word = Inl KeyError"
  by (induction word) (auto simp: table_word_def split: sum.splits option.splits)

lemma word_signature_table:
  "table_word word \<Longrightarrow> word_signature word = Inr (prod_list (map prime_of word))"
  by (simp add: word_signature_def letter_primes_table prod_py_prod_list)

lemma word_signature_mset:
  "table_word word \<Longrightarrow> word_signature word = Inr (prod_mset (image_mset prime_of (mset word)))"
  by (simp add: word_signature_table flip: prod_mset_prod_list)

lemma table_word_mset: "mset w = mset w' \<Longrightarrow> table_word w = table_word w'"
  unfolding table_word_def list_all_iff by (metis set_mset_mset)

lemma table_coprime_all:
  "list_all (\<lambda>(c, p). list_all (\<lambda>(c', p'). c = c' \<or> coprime p p') primes_table) primes_table"
  by code_simp

lemma table_gt_one_all: "list_all (\<lambda>(c, p). 1 < p) primes_table"
  by code_simp

lemma primes_in_table: "primes x = Some p \<Longrightarrow> (x, p) \<in> set primes_table"
  by (simp add: primes_def map_of_SomeD)

lemma primes_coprime:
  assumes "primes x = Some p" "primes y = Some q" "x \<noteq> y"
  shows "coprime p q"
  using table_coprime_all primes_in_table[OF assms(1)] primes_in_table[OF assms(2)] assms(3)
  unfolding list_all_iff by fastforce

lemma primes_gt_one: "primes x = Some p \<Longrightarrow> 1 < p"
  using table_gt_one_all primes_in_table[of x p] unfolding list_all_iff by fastforce

lemma power_dvd_count:
  assumes c: "primes c = Some p" and w: "table_word w"
  shows "p ^ k dvd prod_list (map prime_of w) \<longleftrightarrow> k \<le> count (mset w) c"
  using w
proof (induction w arbitrary: k)
  case Nil
  have "1 < p" using c by (rule primes_gt_one)
  then have np: "\<not> p dvd 1" by (simp add: zdvd1_eq)
  have "\<not> p ^ Suc j dvd 1" for j
    using np dvd_trans[of p "p ^ Suc j" 1] by auto
  then show ?case by (cases k) auto
next
  case (Cons x w)
  then have tw: "table_word w" and "primes x \<noteq> None" by (auto simp: table_word_def)
  then obtain q where q: "primes x = Some q" by auto
  have p1: "1 < p" using c by (rule primes_gt_one)
  show ?case
  proof (cases "x = c")
    case True
    then have px: "prime_of x = p" using c by (simp add: prime_of_def)
    show ?thesis
    proof (cases k)
      case 0 then show ?thesis by simp
    next
      case (Suc j)
      have "p ^ Suc j dvd p * prod_list (map prime_of w) \<longleftrightarrow> p ^ j dvd prod_list (map prime_of w)"
        using p1 by simp
      then have "p ^ k dvd prod_list (map prime_of (x # w)) \<longleftrightarrow> j \<le> count (mset w) c"
        using Suc px Cons.IH[OF tw, of j] by simp
      then show ?thesis using Suc True by simp
    qed
  next
    case False
    have "coprime p q" using primes_coprime[OF c q] False by auto
    then have "coprime (p ^ k) q" by simp
    then have "p ^ k dvd q * prod_list (map prime_of w) \<longleftrightarrow> p ^ k dvd prod_list (map prime_of w)"
      by (rule coprime_dvd_mult_right_iff)
    moreover have "prime_of x = q" using q by (simp add: prime_of_def)
    ultimately show ?thesis using False Cons.IH[OF tw, of k] by simp
  qed
qed

lemma count_from_signature:
  assumes "table_word w" "table_word w'"
    and eq: "prod_list (map prime_of w) = prod_list (map prime_of w')"
  shows "count (mset w) c = count (mset w') c"
proof (cases "primes c")
  case None
  then have "c \<notin> set w" "c \<notin> set w'" using assms(1,2) by (auto simp: table_word_def list_all_iff)
  then show ?thesis by (simp add: count_eq_zero_iff[THEN iffD2])
next
  case (Some p)
  have "\<And>k. k \<le> count (mset w) c \<longleftrightarrow> k \<le> count (mset w') c"
    using power_dvd_count[OF Some assms(1)] power_dvd_count[OF Some assms(2)] eq by simp
  then show ?thesis by (meson order_antisym order_refl)
qed

text \<open>
  Claim C1.  Two words made of table letters have the same signature exactly when
  they have the same letters with the same multiplicities: equal signatures never
  come from different letter multisets, and equal multisets never give different
  signatures.
\<close>

theorem word_signature_eq_iff_mset:
  assumes "table_word w" "table_word w'"
  shows "word_signature w = word_signature w' \<longleftrightarrow> mset w = mset w'"
proof
  assume "word_signature w = word_signature w'"
  then have "prod_list (map prime_of w) = prod_list (map prime_of w')"
    using assms by (simp add: word_signature_table)
  then show "mset w = mset w'"
    using count_from_signature[OF assms] by (intro multiset_eqI) auto
next
  assume "mset w = mset w'"
  then show "word_signature w = word_signature w'"
    using assms by (simp add: word_signature_mset)
qed

theorem word_signature_eq_iff_mset_witness:
  "table_word ''listen'' \<and> table_word ''silent'' \<and> table_word ''listed''
   \<and> word_signature ''listen'' = word_signature ''silent''
   \<and> word_signature ''listen'' \<noteq> word_signature ''listed''"
proof -
  have t: "table_word ''listen''" "table_word ''silent''" "table_word ''listed''"
    by code_simp+
  have 1: "word_signature ''listen'' = word_signature ''silent''"
    using word_signature_eq_iff_mset[OF t(1) t(2)] by simp
  have 2: "word_signature ''listen'' \<noteq> word_signature ''listed''"
    using word_signature_eq_iff_mset[OF t(1) t(3)] by simp
  show ?thesis using t 1 2 by blast
qed

text \<open>
  Claim C8.  Reordering the letters of a word of table letters does not change its
  signature: every permutation of the word has the signature of the word.
\<close>

theorem word_signature_permutation:
  assumes "table_word w" "mset w' = mset w"
  shows "word_signature w' = word_signature w"
  using assms table_word_mset[OF assms(2)] by (simp add: word_signature_mset)

theorem word_signature_permutation_witness:
  "table_word ''enlist'' \<and> mset ''tinsel'' = mset ''enlist''
   \<and> word_signature ''tinsel'' = word_signature ''enlist''"
proof -
  have t: "table_word ''enlist''" by code_simp
  have m: "mset ''tinsel'' = mset ''enlist''" by (simp add: add_mset_commute)
  show ?thesis using t m word_signature_permutation[OF t m] by blast
qed

section \<open>Float division\<close>

lemma bit_length_le_iff: "bit_length n \<le> b \<longleftrightarrow> n < 2 ^ b"
proof (induction b arbitrary: n)
  case 0
  show ?case by (subst bit_length.simps) simp
next
  case (Suc b)
  have "bit_length n \<le> Suc b \<longleftrightarrow> n = 0 \<or> bit_length (n div 2) \<le> b"
    by (subst bit_length.simps) simp
  also have "\<dots> \<longleftrightarrow> n = 0 \<or> n div 2 < 2 ^ b" by (simp add: Suc.IH)
  also have "\<dots> \<longleftrightarrow> n < 2 ^ Suc b" by auto
  finally show ?case .
qed

lemma bit_length_eqI: "2 ^ b \<le> n \<Longrightarrow> n < 2 ^ Suc b \<Longrightarrow> bit_length n = Suc b"
proof -
  assume a: "2 ^ b \<le> n" "n < 2 ^ Suc b"
  have "bit_length n \<le> Suc b" using a(2) by (simp only: bit_length_le_iff)
  moreover have "\<not> bit_length n \<le> b" using a(1) by (simp only: bit_length_le_iff not_less)
  ultimately show ?thesis by simp
qed

lemma nearest_double_small: "n < 2 ^ 53 \<Longrightarrow> nearest_double n = n"
  by (simp add: nearest_double_def bit_length_le_iff)

text \<open>Below \<open>2 ^ 53\<close> the float division of a multiple is exact.\<close>

lemma int_truediv_exact:
  assumes "\<bar>value div number\<bar> < 2 ^ 53"
  shows "int_truediv value number = Inr (value div number)"
proof -
  have less: "nat \<bar>value div number\<bar> < 2 ^ 53" using assms by (simp add: nat_less_iff)
  then have n: "nearest_double (nat \<bar>value div number\<bar>) = nat \<bar>value div number\<bar>"
    by (rule nearest_double_small)
  have "(2::nat) ^ 53 < 2 ^ 1024" by simp
  then have "\<not> (2::nat) ^ 1024 \<le> nat \<bar>value div number\<bar>"
    using less by linarith
  moreover have "sgn (value div number) * int (nat \<bar>value div number\<bar>) = value div number"
    by (simp add: mult_sgn_abs)
  ultimately show ?thesis unfolding int_truediv_def Let_def n by simp
qed

section \<open>The recursive factorizer on concrete phrases\<close>

lemma int_truediv_46: "int_truediv 46 23 = Inr 2" "int_truediv 46 2 = Inr 23"
  by (simp_all add: int_truediv_exact)

lemma bit_length_23_12: "bit_length (23 ^ 12) = 55"
  by (rule bit_length_eqI[of 54, simplified]) simp_all

lemma int_truediv_23_13: "int_truediv (23 ^ 13) 23 = Inr (23 ^ 12 - 1)"
  using bit_length_23_12 by (simp add: int_truediv_def nearest_double_def Let_def)

lemma int_truediv_23_13_12: "int_truediv (23 ^ 13) (23 ^ 12) = Inr 23"
  by (simp add: int_truediv_exact)

lemma truediv_is_one_23_12: "truediv_is_one (23 ^ 12 - 1) (23 ^ 12) = Inr True"
  by (simp add: truediv_is_one_def Let_def)

lemma truediv_is_one_23: "truediv_is_one 23 (23 ^ 12) = Inr False"
  by (simp add: truediv_is_one_def Let_def)

lemma factor_to_tree_23_13:
  "factor_to_tree (Suc (Suc 0)) [23 \<mapsto> [''i''], 23 ^ 12 \<mapsto> [''iiiiiiiiiiii'']] (23 ^ 13)
     [23 ^ 12, 23]
   = Some (Inr [Node (Words [''iiiiiiiiiiii'']) [Node (Leaf_words [[''i'']]) []]])"
  by (simp add: int_truediv_23_13[simplified] int_truediv_23_13_12[simplified])

lemma factor_23_13:
  "factor (Suc (Suc 0)) [23 \<mapsto> [''i''], 23 ^ 12 \<mapsto> [''iiiiiiiiiiii'']] (23 ^ 13) [23 ^ 12, 23]
   = Some (Inl KeyError)"
  by (simp add: int_truediv_23_13[simplified] int_truediv_23_13_12[simplified]
      truediv_is_one_def Let_def int_truediv_exact)

text \<open>
  Claim C4 (fails on the code).  \<open>factor_to_tree\<close> returns as soon as it meets
  \<open>number == value\<close>: for the phrase \<open>ai\<close> with the words \<open>a\<close>, \<open>i\<close> and \<open>ai\<close> in the
  dictionary the sub-signatures are \<open>[46, 23, 2]\<close> and the forest is the single leaf
  \<open>ai\<close>.  The decompositions through 23 and through 2, which the same call finds
  when 46 is not in the list, are not tried when 46 comes first and are thrown
  away when it comes last.
\<close>

theorem factor_to_tree_early_return:
  "prepare_data (Inr [2 \<mapsto> [''a''], 23 \<mapsto> [''i''], 46 \<mapsto> [''ai'']]) [[''ai'']]
     = Inr \<lparr>base = ''ai'', dictionary = [2 \<mapsto> [''a''], 23 \<mapsto> [''i''], 46 \<mapsto> [''ai'']],
            base_signature = 46, perms = [46, 23, 2]\<rparr>
   \<and> factor_to_tree (Suc (Suc 0)) [2 \<mapsto> [''a''], 23 \<mapsto> [''i''], 46 \<mapsto> [''ai'']] 46 [46, 23, 2]
     = Some (Inr [Node (Leaf_words [[''ai'']]) []])
   \<and> factor_to_tree (Suc (Suc 0)) [2 \<mapsto> [''a''], 23 \<mapsto> [''i''], 46 \<mapsto> [''ai'']] 46 [23, 2, 46]
     = Some (Inr [Node (Leaf_words [[''ai'']]) []])
   \<and> factor_to_tree (Suc (Suc 0)) [2 \<mapsto> [''a''], 23 \<mapsto> [''i''], 46 \<mapsto> [''ai'']] 46 [23, 2]
     = Some (Inr [Node (Words [''i'']) [Node (Leaf_words [[''a'']]) []],
                  Node (Words [''a'']) [Node (Leaf_words [[''i'']]) []]])"
proof -
  have 1: "prepare_data (Inr [2 \<mapsto> [''a''], 23 \<mapsto> [''i''], 46 \<mapsto> [''ai'']]) [[''ai'']]
     = Inr \<lparr>base = ''ai'', dictionary = [2 \<mapsto> [''a''], 23 \<mapsto> [''i''], 46 \<mapsto> [''ai'']],
            base_signature = 46, perms = [46, 23, 2]\<rparr>"
    by (simp add: prepare_data_def lower_char_def word_signature_def primes_def primes_table_def
        prod_py_def sub_word_signatures_def)
  have 2: "factor_to_tree (Suc (Suc 0)) [2 \<mapsto> [''a''], 23 \<mapsto> [''i''], 46 \<mapsto> [''ai'']] 46 [46, 23, 2]
     = Some (Inr [Node (Leaf_words [[''ai'']]) []])"
    by simp
  have 3: "factor_to_tree (Suc (Suc 0)) [2 \<mapsto> [''a''], 23 \<mapsto> [''i''], 46 \<mapsto> [''ai'']] 46 [23, 2, 46]
     = Some (Inr [Node (Leaf_words [[''ai'']]) []])"
    by (simp add: int_truediv_46)
  have 4: "factor_to_tree (Suc (Suc 0)) [2 \<mapsto> [''a''], 23 \<mapsto> [''i''], 46 \<mapsto> [''ai'']] 46 [23, 2]
     = Some (Inr [Node (Words [''i'']) [Node (Leaf_words [[''a'']]) []],
                  Node (Words [''a'']) [Node (Leaf_words [[''i'']]) []]])"
    by (simp add: int_truediv_46)
  show ?thesis by (intro conjI 1 2 3 4)
qed

text \<open>
  Claim C5 (fails on the code).  The quotient handed to the recursive call is
  \<open>int(value/number)\<close>, a float division.  For the phrase of thirteen \<open>i\<close> and the
  factor 23, which divides the signature \<open>23 ^ 13\<close> evenly, the call receives
  \<open>23 ^ 12 - 1\<close>, not the quotient \<open>23 ^ 12\<close>; with the words \<open>i\<close> and twelve \<open>i\<close> in
  the dictionary the forest then lacks the decomposition that starts with \<open>i\<close>.
\<close>

theorem int_truediv_rounds_quotient:
  "word_signature ''iiiiiiiiiiiii'' = Inr (23 ^ 13)
   \<and> (23 ^ 13 :: int) mod 23 = 0
   \<and> (23 ^ 13 :: int) div 23 = 23 ^ 12
   \<and> int_truediv (23 ^ 13) 23 = Inr (23 ^ 12 - 1)
   \<and> factor_to_tree (Suc (Suc 0)) [23 \<mapsto> [''i''], 23 ^ 12 \<mapsto> [''iiiiiiiiiiii'']] (23 ^ 13)
        [23 ^ 12, 23]
      = Some (Inr [Node (Words [''iiiiiiiiiiii'']) [Node (Leaf_words [[''i'']]) []]])"
proof -
  have 1: "word_signature ''iiiiiiiiiiiii'' = Inr (23 ^ 13)"
    by (simp add: word_signature_def primes_def primes_table_def prod_py_def)
  have 2: "(23 ^ 13 :: int) mod 23 = 0" by simp
  have 3: "(23 ^ 13 :: int) div 23 = 23 ^ 12" by simp
  show ?thesis by (intro conjI 1 2 3 int_truediv_23_13 factor_to_tree_23_13)
qed

text \<open>
  Claim C7 (fails on the code).  On the same phrase and dictionary the two shapes
  part: \<open>factor_to_tree\<close> returns a forest with one decomposition, \<open>factor\<close> raises a
  KeyError.  \<open>factor\<close> tests \<open>value/number == 1\<close> in floats where \<open>factor_to_tree\<close>
  tests \<open>value == number\<close>, and \<open>(23 ^ 12 - 1) / 23 ^ 12\<close> rounds to \<open>1.0\<close>, so
  \<open>factor\<close> looks the rounded quotient up in the dictionary.
\<close>

theorem factor_differs_from_factor_to_tree:
  "factor_to_tree (Suc (Suc 0)) [23 \<mapsto> [''i''], 23 ^ 12 \<mapsto> [''iiiiiiiiiiii'']] (23 ^ 13)
     [23 ^ 12, 23]
   = Some (Inr [Node (Words [''iiiiiiiiiiii'']) [Node (Leaf_words [[''i'']]) []]])
   \<and> factor (Suc (Suc 0)) [23 \<mapsto> [''i''], 23 ^ 12 \<mapsto> [''iiiiiiiiiiii'']] (23 ^ 13)
        [23 ^ 12, 23]
      = Some (Inl KeyError)"
  by (intro conjI factor_to_tree_23_13 factor_23_13)

lemma bit_length_square: "bit_length 166055401586083681 = 58"
  by (rule bit_length_eqI[of 57, simplified]) simp_all

lemma int_truediv_square:
  "int_truediv (166055401586083681 * 166055401586083680) 166055401586083680
   = Inr 166055401586083680"
  using bit_length_square by (simp add: int_truediv_def nearest_double_def Let_def)

text \<open>
  Claim C3 (fails on the code).  \<open>166055401586083681\<close> is the signature of
  \<open>ddggggggggggmm\<close> and the double nearest to it is \<open>166055401586083680\<close>, the
  signature of \<open>aaaaabbbceeeinqswx\<close>.  For the phrase made of the letters of both
  and the second word in the dictionary, the forest has one path, and the word on
  it twice: its factors multiply to the square of \<open>166055401586083680\<close>, which is
  not the value, and the leaf stands where the remainder is not 1.
\<close>

theorem factor_to_tree_path_product_wrong:
  "word_signature ''aaaaabbbcddeeeggggggggggimmnqswx''
     = Inr (166055401586083681 * 166055401586083680)
   \<and> word_signature ''aaaaabbbceeeinqswx'' = Inr 166055401586083680
   \<and> factor_to_tree (Suc (Suc 0)) [166055401586083680 \<mapsto> [''aaaaabbbceeeinqswx'']]
        (166055401586083681 * 166055401586083680) [166055401586083680]
      = Some (Inr [Node (Words [''aaaaabbbceeeinqswx''])
                     [Node (Leaf_words [[''aaaaabbbceeeinqswx'']]) []]])
   \<and> map path_product
        (paths (Node (Words [''aaaaabbbceeeinqswx''])
                  [Node (Leaf_words [[''aaaaabbbceeeinqswx'']]) []]))
      = [Inr (166055401586083680 * 166055401586083680)]
   \<and> (166055401586083680 * 166055401586083680 :: int)
      \<noteq> 166055401586083681 * 166055401586083680"
proof -
  have 1: "word_signature ''aaaaabbbcddeeeggggggggggimmnqswx''
     = Inr (166055401586083681 * 166055401586083680)"
    by (simp add: word_signature_def primes_def primes_table_def prod_py_def)
  have 2: "word_signature ''aaaaabbbceeeinqswx'' = Inr 166055401586083680"
    by (simp add: word_signature_def primes_def primes_table_def prod_py_def)
  have 3: "factor_to_tree (Suc (Suc 0)) [166055401586083680 \<mapsto> [''aaaaabbbceeeinqswx'']]
        (166055401586083681 * 166055401586083680) [166055401586083680]
      = Some (Inr [Node (Words [''aaaaabbbceeeinqswx''])
                     [Node (Leaf_words [[''aaaaabbbceeeinqswx'']]) []]])"
    by (simp add: int_truediv_square[simplified])
  have 4: "map path_product
        (paths (Node (Words [''aaaaabbbceeeinqswx''])
                  [Node (Leaf_words [[''aaaaabbbceeeinqswx'']]) []]))
      = [Inr (166055401586083680 * 166055401586083680)]"
    by (simp add: path_product_def label_factor_def 2 prod_py_def)
  have 5: "(166055401586083680 * 166055401586083680 :: int)
      \<noteq> 166055401586083681 * 166055401586083680" by simp
  show ?thesis by (intro conjI 1 2 3 4 5)
qed

section \<open>Input validation\<close>

lemma prepare_data_KeyError:
  assumes "\<not> table_word (map lower_char (concat word0))"
  shows "prepare_data (Inr d) (word0 # rest) = Inl KeyError"
  using assms
  by (simp add: prepare_data_def word_signature_def letter_primes_not_table)

text \<open>
  Claim C6, as amended.  A phrase that, joined and lowercased, holds a character
  outside the letter table makes \<open>prepare_data\<close> fail with the KeyError of the table
  lookup (the code has no error type of its own), once the dictionary is loaded and
  before the sub-signatures are enumerated; the iterative search and both modes of
  the recursive one fail with it and start no search.
\<close>

theorem prepare_data_rejects_non_table:
  assumes "\<not> table_word (map lower_char (concat word0))"
  shows "prepare_data (Inr d) (word0 # rest) = Inl KeyError
     \<and> iterative (Inr d) (word0 # rest) = Inl KeyError
     \<and> recursive_tree depth (Inr d) (word0 # rest) = Some (Inl KeyError)
     \<and> recursive_json depth (Inr d) (word0 # rest) = Some (Inl KeyError)"
  using prepare_data_KeyError[OF assms]
  by (simp add: iterative_def recursive_tree_def recursive_json_def)

theorem prepare_data_rejects_non_table_witness:
  "\<not> table_word (map lower_char (concat [''Lis ten'']))
   \<and> prepare_data (Inr Map.empty) [[''Lis ten'']] = Inl KeyError
   \<and> iterative (Inr Map.empty) [[''Lis ten'']] = Inl KeyError
   \<and> recursive_tree 0 (Inr Map.empty) [[''Lis ten'']] = Some (Inl KeyError)
   \<and> recursive_json 0 (Inr Map.empty) [[''Lis ten'']] = Some (Inl KeyError)"
proof -
  have h: "\<not> table_word (map lower_char (concat [''Lis ten'']))"
    by (simp add: table_word_def lower_char_def primes_def primes_table_def)
  show ?thesis
    using h prepare_data_rejects_non_table[OF h, of Map.empty "[]" 0] by simp
qed

text \<open>
  Claim C6 as stated fails: the empty phrase is not rejected.  It gets the signature
  1 and no sub-signatures, and the iterative search prints nothing.
\<close>

theorem empty_phrase_accepted:
  "prepare_data (Inr Map.empty) [['''']]
     = Inr \<lparr>base = '''', dictionary = Map.empty, base_signature = 1, perms = []\<rparr>
   \<and> iterative (Inr Map.empty) [['''']] = Inr []"
proof -
  have 1: "prepare_data (Inr Map.empty) [['''']]
     = Inr \<lparr>base = '''', dictionary = Map.empty, base_signature = 1, perms = []\<rparr>"
    by (simp add: prepare_data_def word_signature_def prod_py_def sub_word_signatures_def)
  have 2: "iterative (Inr Map.empty) [['''']] = Inr []"
    by (simp add: iterative_def 1 search_def sizes_def max_words_def round_quarter_def
        List.map_filter_def)
  show ?thesis by (intro conjI 1 2)
qed

section \<open>Iterative search\<close>

lemma collect_Inr: "collect rs = Inr xs \<Longrightarrow> rs = map Inr xs"
  by (induction rs arbitrary: xs) (auto split: sum.splits)

lemma filter_pre_Cons:
  "filter_pre st (c # cs) = Inr kept \<Longrightarrow>
   \<exists>keep rest. pre_filter st c = Inr keep \<and> filter_pre st cs = Inr rest
      \<and> kept = (if keep then c # rest else rest)"
  by (cases "pre_filter st c"; cases "filter_pre st cs") simp_all

lemma filter_pre_Inr:
  "filter_pre st cs = Inr kept \<Longrightarrow> set kept = {c \<in> set cs. pre_filter st c = Inr True}"
proof (induction cs arbitrary: kept)
  case Nil
  then show ?case by simp
next
  case (Cons c cs)
  from filter_pre_Cons[OF Cons.prems] obtain keep rest where
    k: "pre_filter st c = Inr keep" "filter_pre st cs = Inr rest"
       "kept = (if keep then c # rest else rest)" by blast
  have "set rest = {c \<in> set cs. pre_filter st c = Inr True}" by (rule Cons.IH[OF k(2)])
  then show ?case using k(1,3) by (cases keep) auto
qed

lemma filter_pre_distinct:
  "filter_pre st cs = Inr kept \<Longrightarrow> distinct cs \<Longrightarrow> distinct kept"
proof (induction cs arbitrary: kept)
  case Nil
  then show ?case by simp
next
  case (Cons c cs)
  from filter_pre_Cons[OF Cons.prems(1)] obtain keep rest where
    k: "pre_filter st c = Inr keep" "filter_pre st cs = Inr rest"
       "kept = (if keep then c # rest else rest)" by blast
  have "distinct rest" using Cons.IH[OF k(2)] Cons.prems(2) by simp
  moreover have "c \<notin> set rest" using filter_pre_Inr[OF k(2)] Cons.prems(2) by simp
  ultimately show ?case using k(3) by simp
qed

lemma search_emitted:
  assumes "search st = Inr out" "(c, line) \<in> set out"
  shows "\<exists>k \<in> set (sizes st). \<exists>batch. combs_by_size st k = Inr batch \<and> c \<in> set batch
           \<and> prod_and_filter st c = Some c"
proof -
  from assms(1) obtain batches where
    b: "collect (map (combs_by_size st) (sizes st)) = Inr batches" and
    o: "collect (map (\<lambda>c. case print_line st c of Inl e \<Rightarrow> Inl e | Inr l \<Rightarrow> Inr (c, l))
          (filter (\<lambda>c. c \<noteq> []) (List.map_filter (prod_and_filter st) (concat batches)))) = Inr out"
    by (auto simp: search_def split: sum.splits)
  from collect_Inr[OF o] assms(2)
  have "Inr (c, line) \<in> (\<lambda>c. case print_line st c of Inl e \<Rightarrow> Inl e | Inr l \<Rightarrow> Inr (c, l)) `
      set (filter (\<lambda>c. c \<noteq> []) (List.map_filter (prod_and_filter st) (concat batches)))"
    by (metis (no_types, lifting) image_eqI list.set_map)
  then have "c \<in> set (List.map_filter (prod_and_filter st) (concat batches))"
    by (auto split: sum.splits)
  then obtain c' where c': "c' \<in> set (concat batches)" "prod_and_filter st c' = Some c"
    by (auto simp: List.map_filter_def simp del: set_concat)
  then have cc: "c' = c" by (auto simp: prod_and_filter_def split: if_splits)
  from c'(1) obtain batch where batch: "batch \<in> set batches" "c' \<in> set batch" by auto
  from collect_Inr[OF b] batch(1) have "Inr batch \<in> combs_by_size st ` set (sizes st)"
    by (metis (no_types, lifting) image_eqI list.set_map)
  then obtain k where "k \<in> set (sizes st)" "combs_by_size st k = Inr batch" by auto
  then show ?thesis using batch(2) c'(2) cc by auto
qed

text \<open>
  Claim C2.  Every combination that the iterative search prints, in whatever order
  the printed combinations come, has passed both filters: the first words of its
  signatures have as many letters as the phrase, and its signatures multiply to
  the signature of the phrase.
\<close>

theorem search_emits_exact_combinations:
  assumes "search st = Inr out" and "mset out' = mset out" and "(c, line) \<in> set out'"
  shows "letter_count (dictionary st) c = Inr (length (base st))
         \<and> prod_py c = base_signature st"
proof -
  have "(c, line) \<in> set out" using assms(2,3) by (metis set_mset_mset)
  from search_emitted[OF assms(1) this] obtain k batch where
    kb: "combs_by_size st k = Inr batch" "c \<in> set batch" "prod_and_filter st c = Some c"
    by auto
  from kb(1,2) have "pre_filter st c = Inr True"
    using filter_pre_Inr[of st _ batch] by (auto simp: combs_by_size_def)
  then have "letter_count (dictionary st) c = Inr (length (base st))"
    by (auto simp: pre_filter_def split: sum.splits)
  moreover have "prod_py c = base_signature st"
    using kb(3) by (auto simp: prod_and_filter_def split: if_splits)
  ultimately show ?thesis by simp
qed

lemma sizes_listen:
  "sizes \<lparr>base = ''listen'',
           dictionary = [1914801911 \<mapsto> [''silent'', ''enlist'', ''tinsel'']],
           base_signature = 1914801911, perms = [1914801911]\<rparr> = [1, 2]"
proof -
  have "[1 ..< 3] = [1, 2::nat]" by (simp add: upt_rec)
  then show ?thesis by (simp add: sizes_def max_words_def round_quarter_def)
qed

lemma combs_listen:
  "combs_by_size \<lparr>base = ''listen'',
           dictionary = [1914801911 \<mapsto> [''silent'', ''enlist'', ''tinsel'']],
           base_signature = 1914801911, perms = [1914801911]\<rparr> (Suc 0) = Inr [[1914801911]]"
  "combs_by_size \<lparr>base = ''listen'',
           dictionary = [1914801911 \<mapsto> [''silent'', ''enlist'', ''tinsel'']],
           base_signature = 1914801911, perms = [1914801911]\<rparr> 2 = Inr []"
  by (simp_all add: combs_by_size_def pre_filter_def numeral_2_eq_2)

lemma search_listen:
  "search \<lparr>base = ''listen'',
           dictionary = [1914801911 \<mapsto> [''silent'', ''enlist'', ''tinsel'']],
           base_signature = 1914801911, perms = [1914801911]\<rparr>
   = Inr [([1914801911], str_words [''silent'', ''enlist'', ''tinsel''])]"
  unfolding search_def sizes_listen
  by (simp add: combs_listen prod_and_filter_def prod_py_def List.map_filter_def
      print_line_def)

theorem search_emits_exact_combinations_witness:
  "search \<lparr>base = ''listen'',
           dictionary = [1914801911 \<mapsto> [''silent'', ''enlist'', ''tinsel'']],
           base_signature = 1914801911, perms = [1914801911]\<rparr>
     = Inr [([1914801911], str_words [''silent'', ''enlist'', ''tinsel''])]
   \<and> letter_count [1914801911 \<mapsto> [''silent'', ''enlist'', ''tinsel'']] [1914801911] = Inr 6
   \<and> prod_py [1914801911] = 1914801911"
proof -
  have m: "mset [([1914801911::int], str_words [''silent'', ''enlist'', ''tinsel''])]
         = mset [([1914801911], str_words [''silent'', ''enlist'', ''tinsel''])]" by simp
  have i: "([1914801911::int], str_words [''silent'', ''enlist'', ''tinsel''])
         \<in> set [([1914801911], str_words [''silent'', ''enlist'', ''tinsel''])]" by simp
  show ?thesis
    using search_listen search_emits_exact_combinations[OF search_listen m i] by simp
qed

lemma set_combinations:
  "set (combinations xs k) = {c. subseq c xs \<and> length c = k}"
proof (induction xs k rule: combinations.induct)
  case (1 xs)
  show ?case by auto
next
  case (2 r)
  show ?case by auto
next
  case (3 x xs r)
  show ?case
  proof (intro set_eqI iffI)
    fix c assume "c \<in> set (combinations (x # xs) (Suc r))"
    then show "c \<in> {c. subseq c (x # xs) \<and> length c = Suc r}"
      using 3 by auto
  next
    fix c assume "c \<in> {c. subseq c (x # xs) \<and> length c = Suc r}"
    then have s: "subseq c (x # xs)" and l: "length c = Suc r" by auto
    from l obtain y c' where c: "c = y # c'" "length c' = r" by (cases c) auto
    show "c \<in> set (combinations (x # xs) (Suc r))"
    proof (cases "y = x")
      case True
      then have "subseq c' xs" using s c(1) by simp
      then show ?thesis using 3 c True by auto
    next
      case False
      then have "subseq c xs" using s c(1) by simp
      then show ?thesis using 3 l by auto
    qed
  qed
qed

lemma subseq_set_subset: "subseq c xs \<Longrightarrow> set c \<subseteq> set xs"
  by (induction rule: list_emb.induct) auto

lemma subseq_distinct: "subseq c xs \<Longrightarrow> distinct xs \<Longrightarrow> distinct c"
proof (induction rule: list_emb.induct)
  case (list_emb_Nil ys)
  show ?case by simp
next
  case (list_emb_Cons xs ys y)
  then show ?case by simp
next
  case (list_emb_Cons2 x y xs ys)
  then show ?case using subseq_set_subset[of xs ys] by auto
qed

lemma distinct_combinations: "distinct xs \<Longrightarrow> distinct (combinations xs k)"
proof (induction xs k rule: combinations.induct)
  case (1 xs)
  show ?case by simp
next
  case (2 r)
  show ?case by simp
next
  case (3 x xs r)
  have "x \<notin> set c" if "c \<in> set (combinations xs (Suc r))" for c
    using that 3(3) subseq_set_subset[of c xs] by (auto simp: set_combinations)
  then have "set (map ((#) x) (combinations xs r)) \<inter> set (combinations xs (Suc r)) = {}"
    by fastforce
  moreover have "distinct (map ((#) x) (combinations xs r))"
    using 3 by (simp add: distinct_map)
  ultimately show ?case using 3 by simp
qed

lemma round_quarter_nearest:
  "\<bar>4 * int (round_quarter n) - int n\<bar> \<le> 2
   \<and> (\<bar>4 * int (round_quarter n) - int n\<bar> = 2 \<longrightarrow> even (round_quarter n))"
  unfolding round_quarter_def by presburger

lemma prepare_data_perms:
  assumes "prepare_data loaded words = Inr st"
  shows "distinct (perms st)"
  using assms
  by (auto simp: prepare_data_def sub_word_signatures_def split: list.splits sum.splits)

lemma prepare_data_aia:
  "prepare_data (Inr [2 \<mapsto> [''a''], 23 \<mapsto> [''i''], 46 \<mapsto> [''ai'']]) [[''a'', ''ia'']]
     = Inr \<lparr>base = ''aia'', dictionary = [2 \<mapsto> [''a''], 23 \<mapsto> [''i''], 46 \<mapsto> [''ai'']],
            base_signature = 92, perms = [46, 23, 2]\<rparr>"
  by (simp add: prepare_data_def lower_char_def word_signature_def primes_def primes_table_def
      prod_py_def sub_word_signatures_def)

text \<open>
  Claim C9.  After \<open>prepare_data\<close>, \<open>max_words\<close> is \<open>min(round(len(base)/4) + 1, 5)\<close>,
  where \<open>round\<close> is Python's: the integer nearest to the quarter of the length, the
  even one when two are equally near.  The sizes handed out are exactly 1 to
  \<open>max_words - 1\<close>, each once.  For a size \<open>k\<close> the combinations are exactly the
  subsequences of length \<open>k\<close> of the sub-signatures, of which \<open>combs_by_size\<close> keeps
  those that pass \<open>pre_filter\<close>, each once; no sub-signature occurs twice in a
  combination.
\<close>

theorem iterative_sizes_and_combinations:
  assumes "prepare_data loaded words = Inr st"
  shows "max_words st = min (round_quarter (length (base st)) + 1) 5
     \<and> \<bar>4 * int (round_quarter (length (base st))) - int (length (base st))\<bar> \<le> 2
     \<and> (\<bar>4 * int (round_quarter (length (base st))) - int (length (base st))\<bar> = 2
          \<longrightarrow> even (round_quarter (length (base st))))
     \<and> set (sizes st) = {k. 1 \<le> k \<and> k \<le> max_words st - 1}
     \<and> distinct (sizes st)
     \<and> (\<forall>k. set (combinations (perms st) k) = {c. subseq c (perms st) \<and> length c = k})
     \<and> (\<forall>k batch. combs_by_size st k = Inr batch \<longrightarrow>
            set batch = {c. subseq c (perms st) \<and> length c = k \<and> pre_filter st c = Inr True}
            \<and> distinct batch)
     \<and> (\<forall>c. subseq c (perms st) \<longrightarrow> distinct c)"
proof -
  have d: "distinct (perms st)" using assms by (rule prepare_data_perms)
  have 1: "set (sizes st) = {k. 1 \<le> k \<and> k \<le> max_words st - 1}"
    by (auto simp: sizes_def)
  have 2: "set batch = {c. subseq c (perms st) \<and> length c = k \<and> pre_filter st c = Inr True}
            \<and> distinct batch" if "combs_by_size st k = Inr batch" for k batch
  proof -
    have f: "filter_pre st (combinations (perms st) k) = Inr batch"
      using that distinct_combinations[OF d, of k]
      by (simp add: combs_by_size_def distinct_remdups_id)
    show ?thesis
      using filter_pre_Inr[OF f] filter_pre_distinct[OF f distinct_combinations[OF d]]
      by (auto simp: set_combinations)
  qed
  show ?thesis
    using round_quarter_nearest[of "length (base st)"] 1 2 d
    by (simp add: max_words_def sizes_def set_combinations subseq_distinct)
qed

theorem iterative_sizes_and_combinations_witness:
  "prepare_data (Inr [2 \<mapsto> [''a''], 23 \<mapsto> [''i''], 46 \<mapsto> [''ai'']]) [[''a'', ''ia'']]
     = Inr \<lparr>base = ''aia'', dictionary = [2 \<mapsto> [''a''], 23 \<mapsto> [''i''], 46 \<mapsto> [''ai'']],
            base_signature = 92, perms = [46, 23, 2]\<rparr>
   \<and> max_words \<lparr>base = ''aia'', dictionary = [2 \<mapsto> [''a''], 23 \<mapsto> [''i''], 46 \<mapsto> [''ai'']],
            base_signature = 92, perms = [46, 23, 2]\<rparr> = 2
   \<and> set (sizes \<lparr>base = ''aia'', dictionary = [2 \<mapsto> [''a''], 23 \<mapsto> [''i''], 46 \<mapsto> [''ai'']],
            base_signature = 92, perms = [46, 23, 2]\<rparr>) = {k. 1 \<le> k \<and> k \<le> 2 - 1}
   \<and> set (combinations [46, 23, 2 :: int] 2) = {c. subseq c [46, 23, 2] \<and> length c = 2}"
proof -
  note t = iterative_sizes_and_combinations[OF prepare_data_aia]
  have mw: "max_words \<lparr>base = ''aia'', dictionary = [2 \<mapsto> [''a''], 23 \<mapsto> [''i''], 46 \<mapsto> [''ai'']],
            base_signature = 92, perms = [46, 23, 2]\<rparr> = 2"
    using t[THEN conjunct1] by (simp add: round_quarter_def)
  have s: "set (sizes \<lparr>base = ''aia'', dictionary = [2 \<mapsto> [''a''], 23 \<mapsto> [''i''], 46 \<mapsto> [''ai'']],
            base_signature = 92, perms = [46, 23, 2]\<rparr>) = {k. 1 \<le> k \<and> k \<le> 2 - 1}"
    using t[THEN conjunct2, THEN conjunct2, THEN conjunct2, THEN conjunct1]
    by (simp only: mw)
  have c: "set (combinations [46, 23, 2 :: int] 2) = {c. subseq c [46, 23, 2] \<and> length c = 2}"
    using t[THEN conjunct2, THEN conjunct2, THEN conjunct2, THEN conjunct2, THEN conjunct2,
        THEN conjunct1, THEN spec, of 2]
    by (simp only: state.simps)
  show ?thesis by (intro conjI prepare_data_aia mw s c)
qed

end
